theory Spec2Isabelle
  imports Main "HOL-Library.Word"
begin

unbundle bit_operations_syntax

section \<open>The LC-3 virtual machine of \<^verbatim>\<open>lc3.c\<close>\<close>

text \<open>
  The machine of \<^verbatim>\<open>lc3.c\<close> works on \<^verbatim>\<open>uint16_t\<close> values throughout: they are
  \<open>16 word\<close> here, so that \<open>+\<close> wraps modulo 65536, \<open>drop_bit\<close> is \<^verbatim>\<open>>>\<close>,
  \<open>push_bit\<close> is \<^verbatim>\<open><<\<close> followed by the truncation to 16 bits that the assignment to a
  \<^verbatim>\<open>uint16_t\<close> performs. Bytes of files and of the console are \<open>8 word\<close>.

  The model covers the loader, the memory access functions, the execution loop with
  its sixteen opcode cases and six traps, and \<^verbatim>\<open>main\<close>. The terminal settings
  (\<^verbatim>\<open>disable_input_buffering\<close>, \<^verbatim>\<open>restore_input_buffering\<close>) and the \<^verbatim>\<open>SIGINT\<close>
  handler are left out: no state of the machine depends on them.
\<close>

type_synonym u8 = "8 word"
type_synonym u16 = "16 word"

subsection \<open>Enumerations\<close>

text \<open>Indices into the array \<^verbatim>\<open>reg[R_COUNT]\<close>.\<close>

abbreviation (input) R_R0 :: nat where "R_R0 \<equiv> 0"
abbreviation (input) R_R7 :: nat where "R_R7 \<equiv> 7"
abbreviation (input) R_PC :: nat where "R_PC \<equiv> 8"
abbreviation (input) R_COND :: nat where "R_COND \<equiv> 9"

text \<open>Condition flags: \<^verbatim>\<open>1 << 0\<close>, \<^verbatim>\<open>1 << 1\<close>, \<^verbatim>\<open>1 << 2\<close>.\<close>

abbreviation (input) FL_POS :: u16 where "FL_POS \<equiv> 1"
abbreviation (input) FL_ZRO :: u16 where "FL_ZRO \<equiv> 2"
abbreviation (input) FL_NEG :: u16 where "FL_NEG \<equiv> 4"

text \<open>Opcodes, the value of \<^verbatim>\<open>instr >> 12\<close>.\<close>

abbreviation (input) OP_BR :: u16 where "OP_BR \<equiv> 0"
abbreviation (input) OP_ADD :: u16 where "OP_ADD \<equiv> 1"
abbreviation (input) OP_LD :: u16 where "OP_LD \<equiv> 2"
abbreviation (input) OP_ST :: u16 where "OP_ST \<equiv> 3"
abbreviation (input) OP_JSR :: u16 where "OP_JSR \<equiv> 4"
abbreviation (input) OP_AND :: u16 where "OP_AND \<equiv> 5"
abbreviation (input) OP_LDR :: u16 where "OP_LDR \<equiv> 6"
abbreviation (input) OP_STR :: u16 where "OP_STR \<equiv> 7"
abbreviation (input) OP_RTI :: u16 where "OP_RTI \<equiv> 8"
abbreviation (input) OP_NOT :: u16 where "OP_NOT \<equiv> 9"
abbreviation (input) OP_LDI :: u16 where "OP_LDI \<equiv> 10"
abbreviation (input) OP_STI :: u16 where "OP_STI \<equiv> 11"
abbreviation (input) OP_JMP :: u16 where "OP_JMP \<equiv> 12"
abbreviation (input) OP_RES :: u16 where "OP_RES \<equiv> 13"
abbreviation (input) OP_LEA :: u16 where "OP_LEA \<equiv> 14"
abbreviation (input) OP_TRAP :: u16 where "OP_TRAP \<equiv> 15"

text \<open>Memory mapped registers and trap codes.\<close>

abbreviation (input) MR_KBSR :: u16 where "MR_KBSR \<equiv> 0xFE00"
abbreviation (input) MR_KBDR :: u16 where "MR_KBDR \<equiv> 0xFE02"

abbreviation (input) TRAP_GETC :: u16 where "TRAP_GETC \<equiv> 0x20"
abbreviation (input) TRAP_OUT :: u16 where "TRAP_OUT \<equiv> 0x21"
abbreviation (input) TRAP_PUTS :: u16 where "TRAP_PUTS \<equiv> 0x22"
abbreviation (input) TRAP_IN :: u16 where "TRAP_IN \<equiv> 0x23"
abbreviation (input) TRAP_PUTSP :: u16 where "TRAP_PUTSP \<equiv> 0x24"
abbreviation (input) TRAP_HALT :: u16 where "TRAP_HALT \<equiv> 0x25"

text \<open>\<^verbatim>\<open>MEMORY_MAX\<close> is \<^verbatim>\<open>1 << 16\<close>, an \<^verbatim>\<open>int\<close>: the number of words of \<^verbatim>\<open>memory\<close>.\<close>

abbreviation (input) MEMORY_MAX :: nat where "MEMORY_MAX \<equiv> 65536"

subsection \<open>Bit helpers\<close>

text \<open>
  \<^verbatim>\<open>sign_extend(uint16_t x, int bit_count)\<close>: the test and the mask are computed in
  \<^verbatim>\<open>int\<close> and the result is cut to 16 bits on assignment. The callers pass the
  constants 5, 6, 9 and 11 only, so \<open>bit_count\<close> is a \<open>nat\<close> (C leaves the shift by
  \<^verbatim>\<open>bit_count - 1\<close> undefined when \<open>bit_count\<close> is 0; no caller does that).
\<close>

definition sign_extend :: "u16 \<Rightarrow> nat \<Rightarrow> u16" where
  "sign_extend x bit_count =
     (if drop_bit (bit_count - 1) x AND 1 \<noteq> 0
      then x OR push_bit bit_count 0xFFFF
      else x)"

text \<open>\<^verbatim>\<open>swap16\<close>: \<^verbatim>\<open>(x << 8) | (x >> 8)\<close>, cut to 16 bits by the return type.\<close>

definition swap16 :: "u16 \<Rightarrow> u16" where
  "swap16 x = push_bit 8 x OR drop_bit 8 x"

subsection \<open>Platform, console and machine state\<close>

text \<open>
  Two things the C text leaves to the implementation are parameters of the model:
  whether plain \<^verbatim>\<open>char\<close> is signed (\<^verbatim>\<open>TRAP_IN\<close> converts a \<^verbatim>\<open>char\<close> to
  \<^verbatim>\<open>uint16_t\<close>), and what \<^verbatim>\<open>fread\<close> leaves in an element of which the stream held
  one byte only (its value is indeterminate; \<open>partial_item old b\<close> is that value
  for the previous content \<open>old\<close> and the byte \<open>b\<close>). The host is little-endian,
  as the loader's comment says.
\<close>

record platform =
  char_signed :: bool
  partial_item :: "u16 \<Rightarrow> u8 \<Rightarrow> u16"

text \<open>
  The console: \<open>stdin\<close> is the input not yet consumed (after it, end of file);
  \<open>ready n\<close> is what the \<open>n\<close>-th call of \<^verbatim>\<open>check_key\<close> answers (the
  \<^verbatim>\<open>select\<close> with a zero timeout depends on when keys arrive, which the machine
  does not control) and \<open>polls\<close> counts the calls made; \<open>stdout\<close> is the output
  written so far. Blocking in \<^verbatim>\<open>getchar\<close> is not visible: time is not modelled.
\<close>

record console =
  stdin :: "u8 list"
  ready :: "nat \<Rightarrow> bool"
  polls :: nat
  stdout :: "u8 list"

text \<open>The globals \<^verbatim>\<open>memory[MEMORY_MAX]\<close> and \<^verbatim>\<open>reg[R_COUNT]\<close>, and the console.\<close>

record vm =
  memory :: "u16 \<Rightarrow> u16"
  reg :: "nat \<Rightarrow> u16"
  con :: console

text \<open>
  How an iteration of the loop, or the run, ends: the loop goes on (\<open>Running\<close>),
  \<^verbatim>\<open>running = 0\<close> ends it and \<^verbatim>\<open>main\<close> returns (\<open>Halted\<close>), \<^verbatim>\<open>abort()\<close>
  kills the process (\<open>Aborted\<close>), \<^verbatim>\<open>exit(n)\<close> is called before the loop
  (\<open>Exited\<close>), or a pointer walks out of \<^verbatim>\<open>memory\<close> (\<open>Out_of_bounds\<close>, undefined
  behaviour in C).
\<close>

datatype outcome =
  Running vm
| Halted vm
| Aborted vm
| Exited int console
| Out_of_bounds

subsection \<open>Console primitives\<close>

definition check_key :: "console \<Rightarrow> bool \<times> console" where
  "check_key c = (ready c (polls c), c\<lparr>polls := Suc (polls c)\<rparr>)"

text \<open>\<^verbatim>\<open>getchar()\<close>: the next byte as an \<^verbatim>\<open>int\<close> in 0..255, or \<^verbatim>\<open>EOF\<close>, which is -1.\<close>

definition getchar :: "console \<Rightarrow> int \<times> console" where
  "getchar c = (case stdin c of [] \<Rightarrow> (- 1, c) | b # bs \<Rightarrow> (uint b, c\<lparr>stdin := bs\<rparr>))"

definition putc :: "u8 \<Rightarrow> console \<Rightarrow> console" where
  "putc b c = c\<lparr>stdout := stdout c @ [b]\<rparr>"

definition put_str :: "string \<Rightarrow> console \<Rightarrow> console" where
  "put_str str c = c\<lparr>stdout := stdout c @ map of_char str\<rparr>"

subsection \<open>Flags and memory access\<close>

definition update_flags :: "nat \<Rightarrow> vm \<Rightarrow> vm" where
  "update_flags r s =
     (if reg s r = 0 then s\<lparr>reg := (reg s)(R_COND := FL_ZRO)\<rparr>
      else if drop_bit 15 (reg s r) \<noteq> 0 then s\<lparr>reg := (reg s)(R_COND := FL_NEG)\<rparr>
      else s\<lparr>reg := (reg s)(R_COND := FL_POS)\<rparr>)"

definition mem_write :: "u16 \<Rightarrow> u16 \<Rightarrow> vm \<Rightarrow> vm" where
  "mem_write address val s = s\<lparr>memory := (memory s)(address := val)\<rparr>"

definition mem_read :: "u16 \<Rightarrow> vm \<Rightarrow> u16 \<times> vm" where
  "mem_read address s =
     (let s' =
        (if address = MR_KBSR then
           (case check_key (con s) of (avail, c1) \<Rightarrow>
              if avail then
                (case getchar c1 of (ch, c2) \<Rightarrow>
                   s\<lparr>memory := (memory s)(MR_KBSR := push_bit 15 1, MR_KBDR := word_of_int ch),
                     con := c2\<rparr>)
              else s\<lparr>memory := (memory s)(MR_KBSR := 0), con := c1\<rparr>)
         else s)
      in (memory s' address, s'))"

subsection \<open>The instructions\<close>

text \<open>
  One definition for each \<^verbatim>\<open>case\<close> of the \<^verbatim>\<open>switch (op)\<close> in \<^verbatim>\<open>main\<close>; the state
  they get is the one after the fetch, where \<^verbatim>\<open>reg[R_PC]\<close> is already incremented.
  Register numbers are three-bit fields of the instruction, read as indices of \<open>reg\<close>.
\<close>

definition op_add :: "u16 \<Rightarrow> vm \<Rightarrow> vm" where
  "op_add instr s =
     (let r0 = unat (drop_bit 9 instr AND 0x7);
          r1 = unat (drop_bit 6 instr AND 0x7);
          imm_flag = drop_bit 5 instr AND 0x1
      in update_flags r0
           (if imm_flag \<noteq> 0 then
              (let imm5 = sign_extend (instr AND 0x1F) 5
               in s\<lparr>reg := (reg s)(r0 := reg s r1 + imm5)\<rparr>)
            else
              (let r2 = unat (instr AND 0x7)
               in s\<lparr>reg := (reg s)(r0 := reg s r1 + reg s r2)\<rparr>)))"

definition op_and :: "u16 \<Rightarrow> vm \<Rightarrow> vm" where
  "op_and instr s =
     (let r0 = unat (drop_bit 9 instr AND 0x7);
          r1 = unat (drop_bit 6 instr AND 0x7);
          imm_flag = drop_bit 5 instr AND 0x1
      in update_flags r0
           (if imm_flag \<noteq> 0 then
              (let imm5 = sign_extend (instr AND 0x1F) 5
               in s\<lparr>reg := (reg s)(r0 := reg s r1 AND imm5)\<rparr>)
            else
              (let r2 = unat (instr AND 0x7)
               in s\<lparr>reg := (reg s)(r0 := reg s r1 AND reg s r2)\<rparr>)))"

definition op_not :: "u16 \<Rightarrow> vm \<Rightarrow> vm" where
  "op_not instr s =
     (let r0 = unat (drop_bit 9 instr AND 0x7);
          r1 = unat (drop_bit 6 instr AND 0x7)
      in update_flags r0 (s\<lparr>reg := (reg s)(r0 := NOT (reg s r1))\<rparr>))"

definition op_br :: "u16 \<Rightarrow> vm \<Rightarrow> vm" where
  "op_br instr s =
     (let pc_offset = sign_extend (instr AND 0x1FF) 9;
          cond_flag = drop_bit 9 instr AND 0x7
      in if cond_flag AND reg s R_COND \<noteq> 0
         then s\<lparr>reg := (reg s)(R_PC := reg s R_PC + pc_offset)\<rparr>
         else s)"

definition op_jmp :: "u16 \<Rightarrow> vm \<Rightarrow> vm" where
  "op_jmp instr s =
     (let r1 = unat (drop_bit 6 instr AND 0x7)
      in s\<lparr>reg := (reg s)(R_PC := reg s r1)\<rparr>)"

definition op_jsr :: "u16 \<Rightarrow> vm \<Rightarrow> vm" where
  "op_jsr instr s =
     (let long_flag = drop_bit 11 instr AND 1;
          s1 = s\<lparr>reg := (reg s)(R_R7 := reg s R_PC)\<rparr>
      in if long_flag \<noteq> 0 then
           (let long_pc_offset = sign_extend (instr AND 0x7FF) 11
            in s1\<lparr>reg := (reg s1)(R_PC := reg s1 R_PC + long_pc_offset)\<rparr>)
         else
           (let r1 = unat (drop_bit 6 instr AND 0x7)
            in s1\<lparr>reg := (reg s1)(R_PC := reg s1 r1)\<rparr>))"

definition op_ld :: "u16 \<Rightarrow> vm \<Rightarrow> vm" where
  "op_ld instr s =
     (let r0 = unat (drop_bit 9 instr AND 0x7);
          pc_offset = sign_extend (instr AND 0x1FF) 9
      in case mem_read (reg s R_PC + pc_offset) s of (v, s1) \<Rightarrow>
           update_flags r0 (s1\<lparr>reg := (reg s1)(r0 := v)\<rparr>))"

definition op_ldi :: "u16 \<Rightarrow> vm \<Rightarrow> vm" where
  "op_ldi instr s =
     (let r0 = unat (drop_bit 9 instr AND 0x7);
          pc_offset = sign_extend (instr AND 0x1FF) 9
      in case mem_read (reg s R_PC + pc_offset) s of (a, s1) \<Rightarrow>
           case mem_read a s1 of (v, s2) \<Rightarrow>
             update_flags r0 (s2\<lparr>reg := (reg s2)(r0 := v)\<rparr>))"

definition op_ldr :: "u16 \<Rightarrow> vm \<Rightarrow> vm" where
  "op_ldr instr s =
     (let r0 = unat (drop_bit 9 instr AND 0x7);
          r1 = unat (drop_bit 6 instr AND 0x7);
          offset = sign_extend (instr AND 0x3F) 6
      in case mem_read (reg s r1 + offset) s of (v, s1) \<Rightarrow>
           update_flags r0 (s1\<lparr>reg := (reg s1)(r0 := v)\<rparr>))"

definition op_lea :: "u16 \<Rightarrow> vm \<Rightarrow> vm" where
  "op_lea instr s =
     (let r0 = unat (drop_bit 9 instr AND 0x7);
          pc_offset = sign_extend (instr AND 0x1FF) 9
      in update_flags r0 (s\<lparr>reg := (reg s)(r0 := reg s R_PC + pc_offset)\<rparr>))"

definition op_st :: "u16 \<Rightarrow> vm \<Rightarrow> vm" where
  "op_st instr s =
     (let r0 = unat (drop_bit 9 instr AND 0x7);
          pc_offset = sign_extend (instr AND 0x1FF) 9
      in mem_write (reg s R_PC + pc_offset) (reg s r0) s)"

definition op_sti :: "u16 \<Rightarrow> vm \<Rightarrow> vm" where
  "op_sti instr s =
     (let r0 = unat (drop_bit 9 instr AND 0x7);
          pc_offset = sign_extend (instr AND 0x1FF) 9
      in case mem_read (reg s R_PC + pc_offset) s of (a, s1) \<Rightarrow>
           mem_write a (reg s1 r0) s1)"

definition op_str :: "u16 \<Rightarrow> vm \<Rightarrow> vm" where
  "op_str instr s =
     (let r0 = unat (drop_bit 9 instr AND 0x7);
          r1 = unat (drop_bit 6 instr AND 0x7);
          offset = sign_extend (instr AND 0x3F) 6
      in mem_write (reg s r1 + offset) (reg s r0) s)"

subsection \<open>Traps\<close>

text \<open>
  \<^verbatim>\<open>TRAP_PUTS\<close> and \<^verbatim>\<open>TRAP_PUTSP\<close> walk a pointer \<^verbatim>\<open>c\<close> from
  \<^verbatim>\<open>memory + reg[R_R0]\<close> up to the first zero word. The pointer does not wrap: when
  no zero word lies between the start and the end of \<^verbatim>\<open>memory\<close> the read at index
  65536 is outside the array, and the result is \<open>None\<close>.
\<close>

function puts_loop :: "(u16 \<Rightarrow> u16) \<Rightarrow> nat \<Rightarrow> console \<Rightarrow> console option" where
  "puts_loop mem c out =
     (if MEMORY_MAX \<le> c then None
      else if mem (of_nat c) = 0 then Some out
      else puts_loop mem (Suc c) (putc (ucast (mem (of_nat c))) out))"
  by pat_completeness auto
termination
  by (relation "measure (\<lambda>(mem, c, out). MEMORY_MAX - c)") auto

function putsp_loop :: "(u16 \<Rightarrow> u16) \<Rightarrow> nat \<Rightarrow> console \<Rightarrow> console option" where
  "putsp_loop mem c out =
     (if MEMORY_MAX \<le> c then None
      else if mem (of_nat c) = 0 then Some out
      else
        (let char1 = (ucast (mem (of_nat c) AND 0xFF) :: u8);
             out1 = putc char1 out;
             char2 = (ucast (drop_bit 8 (mem (of_nat c))) :: u8);
             out2 = (if char2 \<noteq> 0 then putc char2 out1 else out1)
         in putsp_loop mem (Suc c) out2))"
  by pat_completeness auto
termination
  by (relation "measure (\<lambda>(mem, c, out). MEMORY_MAX - c)") auto

text \<open>
  Both loops are unfolded one iteration at a time, where a proof asks for it.
\<close>

declare puts_loop.simps [simp del]
declare putsp_loop.simps [simp del]

text \<open>
  The conversion of a \<^verbatim>\<open>char\<close> to \<^verbatim>\<open>uint16_t\<close> in \<^verbatim>\<open>TRAP_IN\<close>: sign extension
  where plain \<^verbatim>\<open>char\<close> is signed, zero extension where it is not.
\<close>

definition char_to_u16 :: "platform \<Rightarrow> u8 \<Rightarrow> u16" where
  "char_to_u16 P b = (if char_signed P then scast b else ucast b)"

definition op_trap :: "platform \<Rightarrow> u16 \<Rightarrow> vm \<Rightarrow> outcome" where
  "op_trap P instr s =
     (let s1 = s\<lparr>reg := (reg s)(R_R7 := reg s R_PC)\<rparr>;
          code = instr AND 0xFF
      in if code = TRAP_GETC then
           (case getchar (con s1) of (ch, c1) \<Rightarrow>
              Running (update_flags R_R0 (s1\<lparr>reg := (reg s1)(R_R0 := word_of_int ch), con := c1\<rparr>)))
         else if code = TRAP_OUT then
           Running (s1\<lparr>con := putc (ucast (reg s1 R_R0)) (con s1)\<rparr>)
         else if code = TRAP_PUTS then
           (case puts_loop (memory s1) (unat (reg s1 R_R0)) (con s1) of
              None \<Rightarrow> Out_of_bounds
            | Some c1 \<Rightarrow> Running (s1\<lparr>con := c1\<rparr>))
         else if code = TRAP_IN then
           (case getchar (put_str ''Enter a character: '' (con s1)) of (ch, c1) \<Rightarrow>
              (let c = (word_of_int ch :: u8)
               in Running (update_flags R_R0
                    (s1\<lparr>reg := (reg s1)(R_R0 := char_to_u16 P c), con := putc c c1\<rparr>))))
         else if code = TRAP_PUTSP then
           (case putsp_loop (memory s1) (unat (reg s1 R_R0)) (con s1) of
              None \<Rightarrow> Out_of_bounds
            | Some c1 \<Rightarrow> Running (s1\<lparr>con := c1\<rparr>))
         else if code = TRAP_HALT then
           Halted (s1\<lparr>con := put_str (''Shutdown'' @ [CHR 0x0A]) (con s1)\<rparr>)
         else Running s1)"

subsection \<open>The execution loop\<close>

text \<open>\<^verbatim>\<open>mem_read(reg[R_PC]++)\<close>: the old program counter is the address read.\<close>

definition fetch :: "vm \<Rightarrow> u16 \<times> vm" where
  "fetch s = mem_read (reg s R_PC) (s\<lparr>reg := (reg s)(R_PC := reg s R_PC + 1)\<rparr>)"

text \<open>The \<^verbatim>\<open>switch (op)\<close>; \<^verbatim>\<open>OP_RES\<close>, \<^verbatim>\<open>OP_RTI\<close> and \<^verbatim>\<open>default\<close> call \<^verbatim>\<open>abort()\<close>.\<close>

definition execute :: "platform \<Rightarrow> u16 \<Rightarrow> vm \<Rightarrow> outcome" where
  "execute P instr s =
     (let op = drop_bit 12 instr
      in if op = OP_ADD then Running (op_add instr s)
         else if op = OP_AND then Running (op_and instr s)
         else if op = OP_NOT then Running (op_not instr s)
         else if op = OP_BR then Running (op_br instr s)
         else if op = OP_JMP then Running (op_jmp instr s)
         else if op = OP_JSR then Running (op_jsr instr s)
         else if op = OP_LD then Running (op_ld instr s)
         else if op = OP_LDI then Running (op_ldi instr s)
         else if op = OP_LDR then Running (op_ldr instr s)
         else if op = OP_LEA then Running (op_lea instr s)
         else if op = OP_ST then Running (op_st instr s)
         else if op = OP_STI then Running (op_sti instr s)
         else if op = OP_STR then Running (op_str instr s)
         else if op = OP_TRAP then op_trap P instr s
         else Aborted s)"

text \<open>One iteration of \<^verbatim>\<open>while (running)\<close>.\<close>

definition step :: "platform \<Rightarrow> vm \<Rightarrow> outcome" where
  "step P s = (case fetch s of (instr, s1) \<Rightarrow> execute P instr s1)"

text \<open>The loop itself. It need not end: \<open>None\<close> is a run that goes on for ever.\<close>

partial_function (option) run :: "platform \<Rightarrow> vm \<Rightarrow> outcome option" where
  "run P s =
     (case step P s of
        Running s' \<Rightarrow> run P s'
      | Halted s' \<Rightarrow> Some (Halted s')
      | Aborted s' \<Rightarrow> Some (Aborted s')
      | Exited n c \<Rightarrow> Some (Exited n c)
      | Out_of_bounds \<Rightarrow> Some Out_of_bounds)"

subsection \<open>The image loader\<close>

text \<open>
  A file is the list of its bytes. On the little-endian host a \<^verbatim>\<open>uint16_t\<close> read by
  \<^verbatim>\<open>fread\<close> has the first byte of the stream as its low byte.
\<close>

definition le16 :: "u8 \<Rightarrow> u8 \<Rightarrow> u16" where
  "le16 b0 b1 = ucast b0 OR push_bit 8 (ucast b1)"

text \<open>
  \<^verbatim>\<open>fread(p, sizeof(uint16_t), n, file)\<close> with \<^verbatim>\<open>p = memory + i\<close>: stores up to \<open>n\<close>
  complete items from index \<open>i\<close> on and returns how many it stored, with the memory.
  A single byte left at the end of the stream is a partial item. The index is a
  \<open>nat\<close> and a store at an index from \<^verbatim>\<open>MEMORY_MAX\<close> on is outside the array: the
  result is then \<open>None\<close>.
\<close>

fun fread_mem ::
  "platform \<Rightarrow> nat \<Rightarrow> nat \<Rightarrow> u8 list \<Rightarrow> (u16 \<Rightarrow> u16) \<Rightarrow> (nat \<times> (u16 \<Rightarrow> u16)) option" where
  "fread_mem P i 0 bs mem = Some (0, mem)"
| "fread_mem P i (Suc n) [] mem = Some (0, mem)"
| "fread_mem P i (Suc n) [b] mem =
     (if i < MEMORY_MAX
      then Some (0, mem(of_nat i := partial_item P (mem (of_nat i)) b))
      else None)"
| "fread_mem P i (Suc n) (b0 # b1 # bs) mem =
     (if i < MEMORY_MAX
      then (case fread_mem P (Suc i) n bs (mem(of_nat i := le16 b0 b1)) of
              None \<Rightarrow> None
            | Some (k, mem') \<Rightarrow> Some (Suc k, mem'))
      else None)"

text \<open>\<^verbatim>\<open>while (read-- > 0) { *p = swap16(*p); ++p; }\<close>\<close>

fun swap_loop :: "nat \<Rightarrow> nat \<Rightarrow> (u16 \<Rightarrow> u16) \<Rightarrow> (u16 \<Rightarrow> u16) option" where
  "swap_loop i 0 mem = Some mem"
| "swap_loop i (Suc k) mem =
     (if i < MEMORY_MAX
      then swap_loop (Suc i) k (mem(of_nat i := swap16 (mem (of_nat i))))
      else None)"

text \<open>
  \<^verbatim>\<open>read_image_file\<close>. \<^verbatim>\<open>MEMORY_MAX - origin\<close> is computed in \<^verbatim>\<open>int\<close> and stored in
  the \<^verbatim>\<open>uint16_t max_read\<close>. A file of fewer than two bytes leaves \<^verbatim>\<open>origin\<close>
  indeterminate, but the stream is then at its end, the second \<^verbatim>\<open>fread\<close> stores
  nothing wherever \<^verbatim>\<open>p\<close> points, and \<^verbatim>\<open>memory\<close> stays as it is.
\<close>

definition read_image_file :: "platform \<Rightarrow> u8 list \<Rightarrow> (u16 \<Rightarrow> u16) \<Rightarrow> (u16 \<Rightarrow> u16) option" where
  "read_image_file P file mem =
     (case file of
        b0 # b1 # body \<Rightarrow>
          (let origin = swap16 (le16 b0 b1);
               max_read = (of_nat (MEMORY_MAX - unat origin) :: u16);
               p = unat origin
           in case fread_mem P p (unat max_read) body mem of
                None \<Rightarrow> None
              | Some (read, mem1) \<Rightarrow> swap_loop p read mem1)
      | _ \<Rightarrow> Some mem)"

text \<open>
  \<^verbatim>\<open>read_image\<close>: the file system maps a path to \<open>None\<close> when \<^verbatim>\<open>fopen\<close> fails, and
  otherwise to the bytes that \<^verbatim>\<open>fread\<close> delivers from the opened stream. A source that
  opens but cannot be read (a directory, say) delivers none: every \<^verbatim>\<open>fread\<close> on it
  returns 0, as at the end of an empty file, and the code tests neither the count that
  \<^verbatim>\<open>fread\<close> returns nor \<^verbatim>\<open>ferror\<close>. The result is the \<^verbatim>\<open>int\<close> returned and the memory.
\<close>

definition read_image ::
  "platform \<Rightarrow> (string \<Rightarrow> u8 list option) \<Rightarrow> string \<Rightarrow> (u16 \<Rightarrow> u16) \<Rightarrow> (int \<times> (u16 \<Rightarrow> u16)) option" where
  "read_image P fs image_path mem =
     (case fs image_path of
        None \<Rightarrow> Some (0, mem)
      | Some file \<Rightarrow>
          (case read_image_file P file mem of
             None \<Rightarrow> None
           | Some mem' \<Rightarrow> Some (1, mem')))"

subsection \<open>The program\<close>

text \<open>
  The loop over \<^verbatim>\<open>argv[1..]\<close> in \<^verbatim>\<open>main\<close>: \<open>Inl path\<close> is the path whose load
  failed, \<open>Inr mem\<close> the memory after all loads.
\<close>

fun load_images ::
  "platform \<Rightarrow> (string \<Rightarrow> u8 list option) \<Rightarrow> string list \<Rightarrow> (u16 \<Rightarrow> u16) \<Rightarrow> (string + (u16 \<Rightarrow> u16)) option" where
  "load_images P fs [] mem = Some (Inr mem)"
| "load_images P fs (path # paths) mem =
     (case read_image P fs path mem of
        None \<Rightarrow> None
      | Some (ok, mem') \<Rightarrow>
          if ok = 0 then Some (Inl path) else load_images P fs paths mem')"

text \<open>
  The state at the first iteration: the globals start as zero, the images are loaded,
  then \<^verbatim>\<open>reg[R_COND] = FL_ZRO\<close> and \<^verbatim>\<open>reg[R_PC] = PC_START\<close>.
\<close>

definition initial_vm :: "(u16 \<Rightarrow> u16) \<Rightarrow> console \<Rightarrow> vm" where
  "initial_vm mem c = \<lparr>memory = mem, reg = (\<lambda>_. 0)(R_COND := FL_ZRO, R_PC := 0x3000), con = c\<rparr>"

definition main ::
  "platform \<Rightarrow> (string \<Rightarrow> u8 list option) \<Rightarrow> string list \<Rightarrow> console \<Rightarrow> outcome option" where
  "main P fs argv c =
     (if length argv < 2 then
        Some (Exited 2 (put_str (''./lc3-vm [image-file1] ...'' @ [CHR 0x0A]) c))
      else
        (case load_images P fs (tl argv) (\<lambda>_. 0) of
           None \<Rightarrow> Some Out_of_bounds
         | Some (Inl path) \<Rightarrow>
             Some (Exited 1 (put_str (''failed to load image: '' @ path @ [CHR 0x0A]) c))
         | Some (Inr mem) \<Rightarrow> run P (initial_vm mem c)))"

text \<open>The states in which the loop can be at the start of an iteration.\<close>

inductive reachable :: "platform \<Rightarrow> vm \<Rightarrow> bool" for P :: platform where
  reachable_init: "reachable P (initial_vm mem c)"
| reachable_step: "reachable P s \<Longrightarrow> step P s = Running s' \<Longrightarrow> reachable P s'"

declare run.simps [code]

subsection \<open>Notions of the specification\<close>

text \<open>
  The flag that the specification gives to a value: ZERO when the value is 0, NEGATIVE
  when its top bit is 1, POSITIVE otherwise.
\<close>

definition spec_flag :: "u16 \<Rightarrow> u16" where
  "spec_flag v = (if v = 0 then FL_ZRO else if bit v 15 then FL_NEG else FL_POS)"

text \<open>
  The flag-affecting operations of the specification (ADD, AND, NOT, LD, LDI, LDR, LEA
  and the traps GETC and IN), and the destination register of each: the field in bits
  11 to 9, and R0 for the two traps.
\<close>

definition flag_affecting :: "u16 \<Rightarrow> bool" where
  "flag_affecting instr =
     (drop_bit 12 instr \<in> {OP_ADD, OP_AND, OP_NOT, OP_LD, OP_LDI, OP_LDR, OP_LEA} \<or>
      (drop_bit 12 instr = OP_TRAP \<and> instr AND 0xFF \<in> {TRAP_GETC, TRAP_IN}))"

definition dest_reg :: "u16 \<Rightarrow> nat" where
  "dest_reg instr =
     (if drop_bit 12 instr = OP_TRAP then R_R0 else unat (drop_bit 9 instr AND 0x7))"

text \<open>A platform, a console and a file system for the concrete runs below.\<close>

definition P0 :: platform where
  "P0 = \<lparr>char_signed = True, partial_item = (\<lambda>old b. old)\<rparr>"

definition c0 :: console where
  "c0 = \<lparr>stdin = [], ready = (\<lambda>_. False), polls = 0, stdout = []\<rparr>"

text \<open>The start state whose first instruction is \<^verbatim>\<open>ADD R0, R0, #1\<close>.\<close>

definition s_add :: vm where
  "s_add = initial_vm ((\<lambda>_. 0)(0x3000 := 0x1021)) c0"

text \<open>The start state whose first instruction has the opcode \<^verbatim>\<open>OP_RTI\<close>.\<close>

definition s_rti :: vm where
  "s_rti = initial_vm ((\<lambda>_. 0)(0x3000 := 0x8000)) c0"

text \<open>
  The start state of the program \<^verbatim>\<open>TRAP x26; TRAP x25\<close>: a trap code that is none of
  the six, then \<^verbatim>\<open>TRAP_HALT\<close>.
\<close>

definition s_trap :: vm where
  "s_trap = initial_vm ((\<lambda>_. 0)(0x3000 := 0xF026, 0x3001 := 0xF025)) c0"

text \<open>
  States about to run \<^verbatim>\<open>ADD R0, R1, R2\<close> with R1 = 0xFFFF and R2 = 1, and
  \<^verbatim>\<open>ADD R0, R1, #1\<close> with R1 = 0xFFFF.
\<close>

definition s_add_reg :: vm where
  "s_add_reg = \<lparr>memory = (\<lambda>_. 0)(0x3000 := 0x1042),
     reg = (\<lambda>_. 0)(1 := 0xFFFF, 2 := 1, R_PC := 0x3000, R_COND := FL_POS), con = c0\<rparr>"

definition s_add_imm :: vm where
  "s_add_imm = \<lparr>memory = (\<lambda>_. 0)(0x3000 := 0x1061),
     reg = (\<lambda>_. 0)(1 := 0xFFFF, R_PC := 0x3000, R_COND := FL_POS), con = c0\<rparr>"

text \<open>A state about to run \<^verbatim>\<open>JSRR R7\<close> at 0x3000, with R7 = 0x4000.\<close>

definition s_jsrr :: vm where
  "s_jsrr = \<lparr>memory = (\<lambda>_. 0)(0x3000 := 0x41C0),
     reg = (\<lambda>_. 0)(R_R7 := 0x4000, R_PC := 0x3000, R_COND := FL_ZRO), con = c0\<rparr>"

text \<open>A file system with one image, \<^verbatim>\<open>prog.obj\<close>: origin 0x3000 and the word 0xF025.\<close>

definition fs0 :: "string \<Rightarrow> u8 list option" where
  "fs0 p = (if p = ''prog.obj'' then Some [0x30, 0x00, 0xF0, 0x25] else None)"

text \<open>
  A file system whose only entry, \<^verbatim>\<open>adir\<close>, is a directory: \<^verbatim>\<open>fopen\<close> opens it and no
  read from it succeeds.
\<close>

definition fs_dir :: "string \<Rightarrow> u8 list option" where
  "fs_dir p = (if p = ''adir'' then Some [] else None)"

section \<open>Bits and register numbers\<close>

lemma drop_bit_and1: "(drop_bit k x AND 1 \<noteq> 0) = bit x k" for x :: u16
  by (simp add: and_one_eq bit_iff_odd_drop_bit odd_iff_mod_2_eq_one)

lemma lt_pow_not_bit:
  fixes x :: u16
  assumes "x < 2 ^ w" and "w \<le> n"
  shows "\<not> bit x n"
proof -
  have "x AND mask w = x" using assms(1) by (rule less_mask_eq)
  then have "bit x n = bit (x AND mask w) n" by simp
  also have "\<dots> = False" using assms(2) by (simp add: bit_simps)
  finally show ?thesis by simp
qed

lemma all_ones: "(65535 :: u16) = - 1"
  by simp

lemma drop_bit15: "(drop_bit 15 x \<noteq> 0) = bit x 15" for x :: u16
proof -
  have "(drop_bit 15 x = 0) = (\<not> bit x 15)"
  proof
    assume "drop_bit 15 x = 0"
    then have "bit (drop_bit 15 x) 0 = False" by simp
    then show "\<not> bit x 15" by (simp add: bit_simps)
  next
    assume top: "\<not> bit x 15"
    show "drop_bit 15 x = 0"
    proof (rule bit_word_eqI)
      fix n assume "n < LENGTH(16)"
      show "bit (drop_bit 15 x) n = bit (0::u16) n"
      proof (cases n)
        case 0
        then show ?thesis using top by (simp add: bit_simps)
      next
        case (Suc m)
        then have "\<not> bit x (15 + n)" by (auto dest: bit_imp_le_length)
        then show ?thesis by (simp add: bit_simps)
      qed
    qed
  qed
  then show ?thesis by simp
qed

lemma unat_and7: "unat (w AND 7 :: u16) < 8"
proof -
  have "w AND 7 \<le> 7" by (rule word_and_le1)
  then have "unat (w AND 7) \<le> unat (7 :: u16)" by (simp add: word_le_nat_alt)
  then show ?thesis by simp
qed

lemma regidx_neq [simp]:
  "unat (w AND 7 :: u16) \<noteq> 9" "unat (w AND 7 :: u16) \<noteq> 8"
  "9 \<noteq> unat (w AND 7 :: u16)" "8 \<noteq> unat (w AND 7 :: u16)"
  using unat_and7 [of w] by auto

section \<open>Sign extension\<close>

lemma sign_extend_bits:
  assumes "0 < w" and "x < 2 ^ w" and "n < 16"
  shows "bit (sign_extend x w) n = (if n < w then bit x n else bit x (w - 1))"
proof (cases "n < w")
  case True
  then show ?thesis using assms(3)
    by (simp add: sign_extend_def drop_bit_and1 all_ones bit_simps)
next
  case False
  then have "\<not> bit x n" using assms(2) by (simp add: lt_pow_not_bit)
  then show ?thesis using False assms(3)
    by (simp add: sign_extend_def drop_bit_and1 all_ones bit_simps)
qed

lemma sign_extend_signed_take_bit:
  assumes "0 < w" and "x < 2 ^ w"
  shows "sign_extend x w = signed_take_bit (w - 1) x"
proof (rule bit_word_eqI)
  fix n assume "n < LENGTH(16)"
  then have n: "n < 16" by simp
  have "min (w - 1) n = (if n < w then n else w - 1)" using assms(1) by auto
  then show "bit (sign_extend x w) n = bit (signed_take_bit (w - 1) x) n"
    using n by (simp add: sign_extend_bits [OF assms n] bit_signed_take_bit_iff)
qed

lemma sign_extend_minus:
  assumes "0 < w" and "x < 2 ^ w"
  shows "sign_extend x w = (if bit x (w - 1) then x - 2 ^ w else x)"
proof -
  have "take_bit w x = x" using assms(2) by (simp add: take_bit_eq_mask less_mask_eq)
  then show ?thesis using assms(1)
    by (simp add: sign_extend_signed_take_bit [OF assms] signed_take_bit_eq_take_bit_minus)
qed

lemma uint_less_pow:
  fixes x :: u16
  assumes "w < 16" and "x < 2 ^ w"
  shows "uint x < 2 ^ w"
proof -
  have "(0::u16) < 2 ^ w" using assms(1) by (simp add: word_2p_lem word_size)
  then have "uint (2 ^ w :: u16) = 2 ^ w" by (rule uint_2p)
  moreover have "uint x < uint (2 ^ w :: u16)" using assms(2) by (simp add: word_less_def)
  ultimately show ?thesis by simp
qed

lemma sint_small:
  fixes x :: u16
  assumes "uint x < 2 ^ 15"
  shows "sint x = uint x"
proof -
  have "sint x = signed_take_bit 15 (uint x)" by (simp add: sint_uint)
  moreover have "- 32768 \<le> uint x" using uint_ge_0 [of x] by linarith
  ultimately show ?thesis using assms by (simp add: signed_take_bit_int_eq_self_iff)
qed

lemma sint_minus_pow:
  fixes x :: u16
  assumes "w < 15" and "uint x < 2 ^ w"
  shows "sint (x - 2 ^ w) = uint x - 2 ^ w"
proof -
  have "x - 2 ^ w = word_of_int (uint x - 2 ^ w)" by simp
  then have eq: "sint (x - 2 ^ w) = signed_take_bit 15 (uint x - 2 ^ w)"
    by (simp only: sint_sbintrunc') simp
  have "(2::int) ^ w \<le> 2 ^ 15" using assms(1) by (rule_tac power_increasing) simp_all
  moreover have "0 \<le> uint x" by simp
  ultimately have "- (2 ^ 15) \<le> uint x - 2 ^ w" and "uint x - 2 ^ w < 2 ^ 15"
    using assms(2) by linarith+
  then have "signed_take_bit 15 (uint x - 2 ^ w) = uint x - 2 ^ w"
    by (simp add: signed_take_bit_int_eq_self_iff)
  then show ?thesis using eq by simp
qed

lemma sign_extend_sint:
  assumes "0 < w" and "w < 15" and "x < 2 ^ w"
  shows "sint (sign_extend x w) = (if bit x (w - 1) then uint x - 2 ^ w else uint x)"
proof -
  have ux: "uint x < 2 ^ w" using assms by (simp add: uint_less_pow)
  have "(2::int) ^ w \<le> 2 ^ 15" using assms(2) by (rule_tac power_increasing) simp_all
  then have "uint x < 2 ^ 15" using ux by linarith
  then have "sint x = uint x" by (rule sint_small)
  then show ?thesis using assms ux
    by (simp add: sign_extend_minus sint_minus_pow)
qed

text \<open>
  Claim C8. \<^verbatim>\<open>sign_extend\<close> fills the bits above position \<open>w - 1\<close> with copies of
  bit \<open>w - 1\<close>: the five-bit pattern 11111 becomes 0xFFFF and 01111 becomes 0x000F;
  for each width \<open>w\<close> among 5, 6, 9 and 11 and each word \<open>x\<close> with no bit set from
  position \<open>w\<close> on, bit \<open>n\<close> of the result is bit \<open>n\<close> of \<open>x\<close> below \<open>w\<close> and bit
  \<open>w - 1\<close> of \<open>x\<close> from \<open>w\<close> on, and the result read as a two's-complement number
  is the field read as a two's-complement number of \<open>w\<close> bits.
\<close>

theorem sign_extend_twos_complement:
  "sign_extend 0x1F 5 = 0xFFFF \<and> sign_extend 0x0F 5 = 0x000F \<and>
   (\<forall>w\<in>{5, 6, 9, 11}. \<forall>x. x < 2 ^ w \<longrightarrow>
      (\<forall>n<16. bit (sign_extend x w) n = (if n < w then bit x n else bit x (w - 1))) \<and>
      sint (sign_extend x w) = (if bit x (w - 1) then uint x - 2 ^ w else uint x))"
proof (intro conjI ballI allI impI)
  show "sign_extend 0x1F 5 = 0xFFFF" by (simp add: sign_extend_def)
  show "sign_extend 0x0F 5 = 0x000F" by (simp add: sign_extend_def)
next
  fix w :: nat and x :: u16 and n :: nat
  assume "w \<in> {5, 6, 9, 11}" and "x < 2 ^ w" and "n < 16"
  moreover from this have "0 < w" by auto
  ultimately show "bit (sign_extend x w) n = (if n < w then bit x n else bit x (w - 1))"
    by (simp only: sign_extend_bits)
next
  fix w :: nat and x :: u16
  assume "w \<in> {5, 6, 9, 11}" and "x < 2 ^ w"
  moreover from this have "0 < w" and "w < 15" by auto
  ultimately show "sint (sign_extend x w) = (if bit x (w - 1) then uint x - 2 ^ w else uint x)"
    by (simp only: sign_extend_sint)
qed

theorem sign_extend_twos_complement_witness:
  "(9::nat) \<in> {5, 6, 9, 11} \<and> (0x1FF::u16) < 2 ^ 9 \<and>
   bit (sign_extend 0x1FF 9) 15 \<and> sint (sign_extend 0x1FF 9) = - 1"
proof -
  have w: "(9::nat) \<in> {5, 6, 9, 11}" by simp
  have x: "(0x1FF::u16) < 2 ^ 9" by simp
  note inst = sign_extend_twos_complement [THEN conjunct2, THEN conjunct2, THEN bspec, OF w,
      THEN spec, of "0x1FF", THEN mp, OF x]
  from inst have "bit (sign_extend 0x1FF 9) 15" by simp
  moreover from inst have "sint (sign_extend 0x1FF 9) = - 1" by simp
  ultimately show ?thesis using w x by simp
qed

section \<open>Condition flags\<close>

lemma update_flags_cond: "reg (update_flags r s) R_COND = spec_flag (reg s r)"
  by (simp add: update_flags_def spec_flag_def drop_bit15)

lemma update_flags_other: "k \<noteq> R_COND \<Longrightarrow> reg (update_flags r s) k = reg s k"
  by (simp add: update_flags_def)

lemma update_flags_sets:
  "r \<noteq> R_COND \<Longrightarrow> reg (update_flags r s) R_COND = spec_flag (reg (update_flags r s) r)"
  by (simp add: update_flags_cond update_flags_other)

lemma spec_flag_cases: "spec_flag v \<in> {FL_NEG, FL_ZRO, FL_POS}"
  by (simp add: spec_flag_def)

lemma mem_read_reg: "reg (snd (mem_read a s)) = reg s"
  by (simp add: mem_read_def Let_def check_key_def getchar_def split: prod.splits list.splits)

lemma mem_read_reg': "mem_read a s = (v, s') \<Longrightarrow> reg s' = reg s"
  using mem_read_reg [of a s] by simp

lemma op_add_flag:
  "reg (op_add instr s) R_COND =
     spec_flag (reg (op_add instr s) (unat (drop_bit 9 instr AND 0x7)))"
  by (simp add: op_add_def Let_def update_flags_sets)

lemma op_and_flag:
  "reg (op_and instr s) R_COND =
     spec_flag (reg (op_and instr s) (unat (drop_bit 9 instr AND 0x7)))"
  by (simp add: op_and_def Let_def update_flags_sets)

lemma op_not_flag:
  "reg (op_not instr s) R_COND =
     spec_flag (reg (op_not instr s) (unat (drop_bit 9 instr AND 0x7)))"
  by (simp add: op_not_def Let_def update_flags_sets)

lemma op_ld_flag:
  "reg (op_ld instr s) R_COND =
     spec_flag (reg (op_ld instr s) (unat (drop_bit 9 instr AND 0x7)))"
  by (simp add: op_ld_def Let_def update_flags_sets split: prod.splits)

lemma op_ldi_flag:
  "reg (op_ldi instr s) R_COND =
     spec_flag (reg (op_ldi instr s) (unat (drop_bit 9 instr AND 0x7)))"
  by (simp add: op_ldi_def Let_def update_flags_sets split: prod.splits)

lemma op_ldr_flag:
  "reg (op_ldr instr s) R_COND =
     spec_flag (reg (op_ldr instr s) (unat (drop_bit 9 instr AND 0x7)))"
  by (simp add: op_ldr_def Let_def update_flags_sets split: prod.splits)

lemma op_lea_flag:
  "reg (op_lea instr s) R_COND =
     spec_flag (reg (op_lea instr s) (unat (drop_bit 9 instr AND 0x7)))"
  by (simp add: op_lea_def Let_def update_flags_sets)

lemma op_trap_getc_flag:
  "instr AND 0xFF = TRAP_GETC \<Longrightarrow>
   \<exists>s'. op_trap P instr s = Running s' \<and> reg s' R_COND = spec_flag (reg s' R_R0)"
  by (simp add: op_trap_def Let_def update_flags_sets split: prod.splits)

lemma op_trap_in_flag:
  "instr AND 0xFF = TRAP_IN \<Longrightarrow>
   \<exists>s'. op_trap P instr s = Running s' \<and> reg s' R_COND = spec_flag (reg s' R_R0)"
  by (simp add: op_trap_def Let_def update_flags_sets split: prod.splits)

lemma execute_flag_affecting:
  assumes "flag_affecting instr"
  shows "\<exists>s'. execute P instr s = Running s' \<and>
           reg s' R_COND = spec_flag (reg s' (dest_reg instr))"
proof -
  consider "drop_bit 12 instr = OP_ADD" | "drop_bit 12 instr = OP_AND"
    | "drop_bit 12 instr = OP_NOT" | "drop_bit 12 instr = OP_LD"
    | "drop_bit 12 instr = OP_LDI" | "drop_bit 12 instr = OP_LDR"
    | "drop_bit 12 instr = OP_LEA"
    | "drop_bit 12 instr = OP_TRAP" "instr AND 0xFF = TRAP_GETC"
    | "drop_bit 12 instr = OP_TRAP" "instr AND 0xFF = TRAP_IN"
    using assms unfolding flag_affecting_def by auto
  then show ?thesis
  proof cases
    case 1
    then show ?thesis by (simp add: execute_def dest_reg_def op_add_flag)
  next
    case 2
    then show ?thesis by (simp add: execute_def dest_reg_def op_and_flag)
  next
    case 3
    then show ?thesis by (simp add: execute_def dest_reg_def op_not_flag)
  next
    case 4
    then show ?thesis by (simp add: execute_def dest_reg_def op_ld_flag)
  next
    case 5
    then show ?thesis by (simp add: execute_def dest_reg_def op_ldi_flag)
  next
    case 6
    then show ?thesis by (simp add: execute_def dest_reg_def op_ldr_flag)
  next
    case 7
    then show ?thesis by (simp add: execute_def dest_reg_def op_lea_flag)
  next
    case 8
    then show ?thesis
      using op_trap_getc_flag [of instr P s] by (simp add: execute_def dest_reg_def)
  next
    case 9
    then show ?thesis
      using op_trap_in_flag [of instr P s] by (simp add: execute_def dest_reg_def)
  qed
qed

lemma op_trap_other_cond:
  assumes "instr AND 0xFF \<noteq> TRAP_GETC" and "instr AND 0xFF \<noteq> TRAP_IN"
    and "op_trap P instr s = Running s'"
  shows "reg s' R_COND = reg s R_COND"
proof -
  let ?s1 = "s\<lparr>reg := (reg s)(R_R7 := reg s R_PC)\<rparr>"
  consider "instr AND 0xFF = TRAP_OUT" | "instr AND 0xFF = TRAP_PUTS" | "instr AND 0xFF = TRAP_PUTSP"
    | "instr AND 0xFF = TRAP_HALT"
    | "instr AND 0xFF \<notin> {TRAP_GETC, TRAP_OUT, TRAP_PUTS, TRAP_IN, TRAP_PUTSP, TRAP_HALT}"
    using assms(1,2) by blast
  then show ?thesis
  proof cases
    case 1
    then have "s' = ?s1\<lparr>con := putc (ucast (reg ?s1 R_R0)) (con ?s1)\<rparr>"
      using assms(3) by (simp add: op_trap_def Let_def)
    then show ?thesis by simp
  next
    case 2
    then obtain c1 where "s' = ?s1\<lparr>con := c1\<rparr>"
      using assms(3) by (auto simp: op_trap_def Let_def split: option.splits)
    then show ?thesis by simp
  next
    case 3
    then obtain c1 where "s' = ?s1\<lparr>con := c1\<rparr>"
      using assms(3) by (auto simp: op_trap_def Let_def split: option.splits)
    then show ?thesis by simp
  next
    case 4
    then show ?thesis using assms(3) by (simp add: op_trap_def Let_def)
  next
    case 5
    then have "s' = ?s1" using assms(3) by (simp add: op_trap_def Let_def)
    then show ?thesis by simp
  qed
qed

lemma fetch_reg_cond: "fetch s = (instr, s1) \<Longrightarrow> reg s1 R_COND = reg s R_COND"
  by (auto simp: fetch_def dest!: mem_read_reg')

lemma op_br_cond: "reg (op_br instr s) R_COND = reg s R_COND"
  by (simp add: op_br_def Let_def)

lemma op_jmp_cond: "reg (op_jmp instr s) R_COND = reg s R_COND"
  by (simp add: op_jmp_def Let_def)

lemma op_jsr_cond: "reg (op_jsr instr s) R_COND = reg s R_COND"
  by (simp add: op_jsr_def Let_def)

lemma op_st_cond: "reg (op_st instr s) R_COND = reg s R_COND"
  by (simp add: op_st_def Let_def mem_write_def)

lemma op_sti_cond: "reg (op_sti instr s) R_COND = reg s R_COND"
  by (auto simp: op_sti_def Let_def mem_write_def split: prod.splits dest!: mem_read_reg')

lemma op_str_cond: "reg (op_str instr s) R_COND = reg s R_COND"
  by (simp add: op_str_def Let_def mem_write_def)

lemma op_trap_cond:
  assumes "op_trap P instr s = Running s'" and "reg s R_COND \<in> {FL_NEG, FL_ZRO, FL_POS}"
  shows "reg s' R_COND \<in> {FL_NEG, FL_ZRO, FL_POS}"
proof -
  consider "instr AND 0xFF = TRAP_GETC" | "instr AND 0xFF = TRAP_IN"
    | "instr AND 0xFF \<noteq> TRAP_GETC" "instr AND 0xFF \<noteq> TRAP_IN" by blast
  then show ?thesis
  proof cases
    case 1
    then show ?thesis using op_trap_getc_flag [of instr P s] assms(1) spec_flag_cases by auto
  next
    case 2
    then show ?thesis using op_trap_in_flag [of instr P s] assms(1) spec_flag_cases by auto
  next
    case 3
    then have "reg s' R_COND = reg s R_COND" using assms(1) by (simp add: op_trap_other_cond)
    then show ?thesis using assms(2) by simp
  qed
qed

lemma execute_other_cond:
  assumes "\<not> flag_affecting instr" and "drop_bit 12 instr \<noteq> OP_TRAP"
    and "execute P instr s = Running s'"
  shows "reg s' R_COND = reg s R_COND"
proof -
  let ?op = "drop_bit 12 instr"
  consider "?op = OP_BR" | "?op = OP_JMP" | "?op = OP_JSR" | "?op = OP_ST" | "?op = OP_STI"
    | "?op = OP_STR" | "?op = OP_ADD \<or> ?op = OP_AND \<or> ?op = OP_NOT \<or> ?op = OP_LD \<or>
         ?op = OP_LDI \<or> ?op = OP_LDR \<or> ?op = OP_LEA \<or> ?op = OP_TRAP"
    | "?op \<notin> {OP_BR, OP_ADD, OP_LD, OP_ST, OP_JSR, OP_AND, OP_LDR, OP_STR, OP_NOT, OP_LDI,
         OP_STI, OP_JMP, OP_LEA, OP_TRAP}"
    by blast
  then show ?thesis
  proof cases
    case 1
    then show ?thesis using assms(3) by (auto simp: execute_def op_br_cond)
  next
    case 2
    then show ?thesis using assms(3) by (auto simp: execute_def op_jmp_cond)
  next
    case 3
    then show ?thesis using assms(3) by (auto simp: execute_def op_jsr_cond)
  next
    case 4
    then show ?thesis using assms(3) by (auto simp: execute_def op_st_cond)
  next
    case 5
    then show ?thesis using assms(3) by (auto simp: execute_def op_sti_cond)
  next
    case 6
    then show ?thesis using assms(3) by (auto simp: execute_def op_str_cond)
  next
    case 7
    then show ?thesis using assms(1,2) by (auto simp: flag_affecting_def)
  next
    case 8
    then show ?thesis using assms(3) by (simp add: execute_def)
  qed
qed

lemma execute_cond:
  assumes "execute P instr s = Running s'" and "reg s R_COND \<in> {FL_NEG, FL_ZRO, FL_POS}"
  shows "reg s' R_COND \<in> {FL_NEG, FL_ZRO, FL_POS}"
proof (cases "flag_affecting instr")
  case True
  then show ?thesis using execute_flag_affecting [of instr P s] assms(1) spec_flag_cases by auto
next
  case False
  show ?thesis
  proof (cases "drop_bit 12 instr = OP_TRAP")
    case True
    then have "op_trap P instr s = Running s'" using assms(1) by (simp add: execute_def)
    then show ?thesis using assms(2) by (rule op_trap_cond)
  next
    case nt: False
    have "reg s' R_COND = reg s R_COND" using False nt assms(1) by (rule execute_other_cond)
    then show ?thesis using assms(2) by simp
  qed
qed

lemma step_cond:
  assumes "step P s = Running s'" and "reg s R_COND \<in> {FL_NEG, FL_ZRO, FL_POS}"
  shows "reg s' R_COND \<in> {FL_NEG, FL_ZRO, FL_POS}"
proof -
  obtain instr s1 where f: "fetch s = (instr, s1)" by (cases "fetch s")
  then have "execute P instr s1 = Running s'" using assms(1) by (simp add: step_def)
  moreover have "reg s1 R_COND \<in> {FL_NEG, FL_ZRO, FL_POS}"
    using fetch_reg_cond [OF f] assms(2) by simp
  ultimately show ?thesis by (rule execute_cond)
qed

lemma reachable_cond: "reachable P s \<Longrightarrow> reg s R_COND \<in> {FL_NEG, FL_ZRO, FL_POS}"
proof (induction rule: reachable.induct)
  case (reachable_init mem c)
  show ?case by (simp add: initial_vm_def)
next
  case (reachable_step s s')
  then show ?case using step_cond by blast
qed

text \<open>
  Claim C1. When the instruction fetched is flag-affecting (ADD, AND, NOT, LD, LDI, LDR,
  LEA, TRAP GETC or TRAP IN), the iteration ends with the loop running on, and
  \<^verbatim>\<open>reg[R_COND]\<close> is then the flag of the value that the destination register holds:
  ZERO for 0, NEGATIVE when the top bit is set, POSITIVE otherwise; so it is one of the
  three flags. In every state the loop reaches, \<^verbatim>\<open>reg[R_COND]\<close> is one of the three
  flags.
\<close>

theorem condition_flags:
  "(flag_affecting (fst (fetch s)) \<longrightarrow>
      (\<exists>s'. step P s = Running s' \<and>
            reg s' R_COND = spec_flag (reg s' (dest_reg (fst (fetch s)))) \<and>
            reg s' R_COND \<in> {FL_NEG, FL_ZRO, FL_POS})) \<and>
   (reachable P s \<longrightarrow> reg s R_COND \<in> {FL_NEG, FL_ZRO, FL_POS})"
proof (intro conjI impI)
  assume fa: "flag_affecting (fst (fetch s))"
  obtain instr s1 where f: "fetch s = (instr, s1)" by (cases "fetch s")
  then obtain s' where "execute P instr s1 = Running s'"
    and "reg s' R_COND = spec_flag (reg s' (dest_reg instr))"
    using execute_flag_affecting [of instr P s1] fa by auto
  then show "\<exists>s'. step P s = Running s' \<and>
            reg s' R_COND = spec_flag (reg s' (dest_reg (fst (fetch s)))) \<and>
            reg s' R_COND \<in> {FL_NEG, FL_ZRO, FL_POS}"
    using f spec_flag_cases [of "reg s' (dest_reg instr)"] by (simp add: step_def)
next
  assume "reachable P s"
  then show "reg s R_COND \<in> {FL_NEG, FL_ZRO, FL_POS}" by (rule reachable_cond)
qed

theorem condition_flags_witness:
  "flag_affecting (fst (fetch s_add)) \<and> reachable P0 s_add \<and>
   (\<exists>s'. step P0 s_add = Running s' \<and> reg s' R_COND = spec_flag (reg s' R_R0) \<and>
         reg s' R_COND \<in> {FL_NEG, FL_ZRO, FL_POS}) \<and>
   reg s_add R_COND \<in> {FL_NEG, FL_ZRO, FL_POS}"
proof -
  have f: "fst (fetch s_add) = 0x1021"
    by (simp add: s_add_def initial_vm_def fetch_def mem_read_def)
  have fa: "flag_affecting (fst (fetch s_add))"
    by (simp add: f flag_affecting_def)
  have d: "dest_reg (fst (fetch s_add)) = R_R0"
    by (simp add: f dest_reg_def)
  have r: "reachable P0 s_add"
    unfolding s_add_def by (rule reachable_init)
  note inst = condition_flags [of s_add P0]
  from inst fa have "\<exists>s'. step P0 s_add = Running s' \<and>
      reg s' R_COND = spec_flag (reg s' (dest_reg (fst (fetch s_add)))) \<and>
      reg s' R_COND \<in> {FL_NEG, FL_ZRO, FL_POS}" by blast
  moreover from inst r have "reg s_add R_COND \<in> {FL_NEG, FL_ZRO, FL_POS}" by blast
  ultimately show ?thesis using fa r d by simp
qed

section \<open>Memory-mapped keyboard registers\<close>

text \<open>
  Claim C2. Every \<^verbatim>\<open>mem_read\<close> of 0xFE00 makes one poll of the console. When the
  poll finds input, the word stored at 0xFE00 becomes 0x8000 (bit 15 set) and the
  character taken from the input is stored at 0xFE02 (0xFFFF at end of input, where
  \<^verbatim>\<open>getchar\<close> gives \<^verbatim>\<open>EOF\<close>); when it finds none, the word stored at 0xFE00
  becomes 0 and neither 0xFE02 nor the input changes. The value read is the word now
  stored at 0xFE00. A \<^verbatim>\<open>mem_read\<close> of 0xFE02 returns the stored word and changes
  nothing: no poll, no input consumed.
\<close>

theorem mem_read_keyboard:
  "(case mem_read MR_KBSR s of (v, s') \<Rightarrow>
      polls (con s') = Suc (polls (con s)) \<and>
      v = memory s' MR_KBSR \<and>
      (if ready (con s) (polls (con s))
       then memory s' MR_KBSR = 0x8000 \<and> bit (memory s' MR_KBSR) 15 \<and>
            (case stdin (con s) of
               b # bs \<Rightarrow> memory s' MR_KBDR = ucast b \<and> stdin (con s') = bs
             | [] \<Rightarrow> memory s' MR_KBDR = 0xFFFF \<and> stdin (con s') = [])
       else memory s' MR_KBSR = 0 \<and> memory s' MR_KBDR = memory s MR_KBDR \<and>
            stdin (con s') = stdin (con s))) \<and>
   mem_read MR_KBDR s = (memory s MR_KBDR, s)"
  by (simp add: mem_read_def Let_def check_key_def getchar_def split: list.splits)

section \<open>Single instructions\<close>

lemma fetch_reg: "reg (snd (fetch s)) = (reg s)(R_PC := reg s R_PC + 1)"
  by (simp add: fetch_def mem_read_reg)

lemma step_execute: "step P s = execute P (fst (fetch s)) (snd (fetch s))"
  by (simp add: step_def split: prod.splits)

text \<open>
  Claim C4. When the opcode of the fetched instruction is \<^verbatim>\<open>OP_RTI\<close> (8) or
  \<^verbatim>\<open>OP_RES\<close> (13), the iteration ends in \<^verbatim>\<open>abort()\<close>, in the state right after the
  fetch: the run ends there as \<open>Aborted\<close>, which is not the \<open>Halted\<close> of a normal
  halt, and no further instruction is executed.
\<close>

theorem illegal_opcode_aborts:
  "drop_bit 12 (fst (fetch s)) \<in> {OP_RTI, OP_RES} \<Longrightarrow>
   step P s = Aborted (snd (fetch s)) \<and> run P s = Some (Aborted (snd (fetch s))) \<and>
   (\<forall>s'. run P s \<noteq> Some (Halted s'))"
proof -
  assume op: "drop_bit 12 (fst (fetch s)) \<in> {OP_RTI, OP_RES}"
  then have st: "step P s = Aborted (snd (fetch s))"
    by (auto simp: step_execute execute_def)
  then have "run P s = Some (Aborted (snd (fetch s)))"
    by (subst run.simps) simp
  then show ?thesis using st by simp
qed

theorem illegal_opcode_aborts_witness:
  "drop_bit 12 (fst (fetch s_rti)) \<in> {OP_RTI, OP_RES} \<and>
   (\<exists>s'. run P0 s_rti = Some (Aborted s') \<and> reg s' R_PC = 0x3001)"
proof -
  have f: "fst (fetch s_rti) = 0x8000"
    by (simp add: s_rti_def initial_vm_def fetch_def mem_read_def)
  have op: "drop_bit 12 (fst (fetch s_rti)) \<in> {OP_RTI, OP_RES}" by (simp add: f)
  have "reg (snd (fetch s_rti)) R_PC = 0x3001"
    by (simp add: fetch_reg s_rti_def initial_vm_def)
  then show ?thesis using op illegal_opcode_aborts [OF op, of P0] by simp
qed

lemma sum_wraps: "unat (a + b) = (unat a + unat b) mod 65536" for a b :: u16
  by (simp add: unat_word_ariths)

text \<open>
  Claim C7. \<^verbatim>\<open>OP_ADD\<close> never fails: the loop runs on, and the destination holds the
  sum of the first operand and the second (a register, or the sign-extended five-bit
  immediate) modulo 65536. In either form, when the operands are 0xFFFF and 0x0001 the
  destination becomes 0x0000 and \<^verbatim>\<open>reg[R_COND]\<close> becomes \<^verbatim>\<open>FL_ZRO\<close>.
\<close>

theorem add_wraps:
  "drop_bit 12 (fst (fetch s)) = OP_ADD \<Longrightarrow>
   (let instr = fst (fetch s);
        r0 = unat (drop_bit 9 instr AND 0x7);
        r1 = unat (drop_bit 6 instr AND 0x7);
        operand = (if drop_bit 5 instr AND 0x1 \<noteq> 0 then sign_extend (instr AND 0x1F) 5
                   else reg s (unat (instr AND 0x7)))
    in \<exists>s'. step P s = Running s' \<and>
         unat (reg s' r0) = (unat (reg s r1) + unat operand) mod 65536 \<and>
         ((reg s r1 = 0xFFFF \<and> operand = 0x0001) \<or> (reg s r1 = 0x0001 \<and> operand = 0xFFFF) \<longrightarrow>
            reg s' r0 = 0x0000 \<and> reg s' R_COND = FL_ZRO))"
proof -
  assume op: "drop_bit 12 (fst (fetch s)) = OP_ADD"
  let ?i = "fst (fetch s)" 
  let ?s1 = "snd (fetch s)"
  let ?r0 = "unat (drop_bit 9 ?i AND 0x7)" 
  let ?r1 = "unat (drop_bit 6 ?i AND 0x7)"
  let ?operand = "if drop_bit 5 ?i AND 0x1 \<noteq> 0 then sign_extend (?i AND 0x1F) 5
                   else reg s (unat (?i AND 0x7))"
  have st: "step P s = Running (op_add ?i ?s1)" using op by (simp add: step_execute execute_def)
  have val: "reg (op_add ?i ?s1) ?r0 = reg s ?r1 + ?operand"
    by (simp add: op_add_def Let_def update_flags_other fetch_reg)
  have cond: "reg (op_add ?i ?s1) R_COND = spec_flag (reg s ?r1 + ?operand)"
    using op_add_flag [of ?i ?s1] val by simp
  have "unat (reg (op_add ?i ?s1) ?r0) = (unat (reg s ?r1) + unat ?operand) mod 65536"
    by (simp only: val sum_wraps)
  moreover have "(reg s ?r1 = 0xFFFF \<and> ?operand = 0x0001) \<or> (reg s ?r1 = 0x0001 \<and> ?operand = 0xFFFF) \<longrightarrow>
            reg (op_add ?i ?s1) ?r0 = 0x0000 \<and> reg (op_add ?i ?s1) R_COND = FL_ZRO"
    unfolding val cond by (auto simp: spec_flag_def)
  ultimately show ?thesis using st unfolding Let_def by blast
qed

theorem add_wraps_witness:
  "drop_bit 12 (fst (fetch s_add_reg)) = OP_ADD \<and> drop_bit 12 (fst (fetch s_add_imm)) = OP_ADD \<and>
   (\<exists>s'. step P0 s_add_reg = Running s' \<and> reg s' R_R0 = 0x0000 \<and> reg s' R_COND = FL_ZRO) \<and>
   (\<exists>s'. step P0 s_add_imm = Running s' \<and> reg s' R_R0 = 0x0000 \<and> reg s' R_COND = FL_ZRO)"
proof -
  have f1: "fst (fetch s_add_reg) = 0x1042"
    by (simp add: s_add_reg_def fetch_def mem_read_def)
  have f2: "fst (fetch s_add_imm) = 0x1061"
    by (simp add: s_add_imm_def fetch_def mem_read_def)
  have op1: "drop_bit 12 (fst (fetch s_add_reg)) = OP_ADD" by (simp add: f1)
  have op2: "drop_bit 12 (fst (fetch s_add_imm)) = OP_ADD" by (simp add: f2)
  have r1: "reg s_add_reg 1 = 0xFFFF" "reg s_add_reg 2 = 1" by (simp_all add: s_add_reg_def)
  have r2: "reg s_add_imm 1 = 0xFFFF" by (simp add: s_add_imm_def)
  have "\<exists>s'. step P0 s_add_reg = Running s' \<and> reg s' R_R0 = 0x0000 \<and> reg s' R_COND = FL_ZRO"
    using add_wraps [OF op1, of P0] r1 by (auto simp: f1 Let_def)
  moreover
  have "\<exists>s'. step P0 s_add_imm = Running s' \<and> reg s' R_R0 = 0x0000 \<and> reg s' R_COND = FL_ZRO"
    using add_wraps [OF op2, of P0] r2 by (auto simp: f2 Let_def sign_extend_def)
  ultimately show ?thesis using op1 op2 by simp
qed

text \<open>
  Claim C9. In the register form of \<^verbatim>\<open>OP_JSR\<close> (bit 11 clear) with base register R7,
  R7 receives the return address before it is read as the base: after the instruction
  both R7 and the program counter hold the address that follows the instruction,
  whatever R7 held before.
\<close>

theorem jsrr_links_before_reading_base:
  "drop_bit 12 (fst (fetch s)) = OP_JSR \<Longrightarrow> drop_bit 11 (fst (fetch s)) AND 1 = 0 \<Longrightarrow>
   drop_bit 6 (fst (fetch s)) AND 0x7 = 7 \<Longrightarrow>
   \<exists>s'. step P s = Running s' \<and> reg s' R_R7 = reg s R_PC + 1 \<and> reg s' R_PC = reg s R_PC + 1"
proof -
  assume op: "drop_bit 12 (fst (fetch s)) = OP_JSR"
    and short: "drop_bit 11 (fst (fetch s)) AND 1 = 0"
    and base: "drop_bit 6 (fst (fetch s)) AND 0x7 = 7"
  have "step P s = Running (op_jsr (fst (fetch s)) (snd (fetch s)))"
    using op by (simp add: step_execute execute_def)
  moreover have "reg (op_jsr (fst (fetch s)) (snd (fetch s))) R_R7 = reg s R_PC + 1"
    using short base by (simp add: op_jsr_def Let_def fetch_reg)
  moreover have "reg (op_jsr (fst (fetch s)) (snd (fetch s))) R_PC = reg s R_PC + 1"
    using short base by (simp add: op_jsr_def Let_def fetch_reg)
  ultimately show ?thesis by blast
qed

theorem jsrr_links_before_reading_base_witness:
  "drop_bit 12 (fst (fetch s_jsrr)) = OP_JSR \<and> drop_bit 11 (fst (fetch s_jsrr)) AND 1 = 0 \<and>
   drop_bit 6 (fst (fetch s_jsrr)) AND 0x7 = 7 \<and> reg s_jsrr R_R7 = 0x4000 \<and>
   (\<exists>s'. step P0 s_jsrr = Running s' \<and> reg s' R_R7 = 0x3001 \<and> reg s' R_PC = 0x3001)"
proof -
  have f: "fst (fetch s_jsrr) = 0x41C0"
    by (simp add: s_jsrr_def fetch_def mem_read_def)
  have op: "drop_bit 12 (fst (fetch s_jsrr)) = OP_JSR" by (simp add: f)
  have short: "drop_bit 11 (fst (fetch s_jsrr)) AND 1 = 0" by (simp add: f)
  have base: "drop_bit 6 (fst (fetch s_jsrr)) AND 0x7 = 7" by (simp add: f)
  have r: "reg s_jsrr R_R7 = 0x4000" "reg s_jsrr R_PC = 0x3000" by (simp_all add: s_jsrr_def)
  show ?thesis
    using jsrr_links_before_reading_base [OF op short base, of P0] op short base r by simp
qed

lemma op_trap_undefined:
  assumes "instr AND 0xFF \<notin> {TRAP_GETC, TRAP_OUT, TRAP_PUTS, TRAP_IN, TRAP_PUTSP, TRAP_HALT}"
  shows "op_trap P instr s = Running (s\<lparr>reg := (reg s)(R_R7 := reg s R_PC)\<rparr>)"
  using assms by (simp add: op_trap_def Let_def)

lemma step_trap_undefined:
  assumes "drop_bit 12 (fst (fetch s)) = OP_TRAP"
    and "fst (fetch s) AND 0xFF \<notin> {TRAP_GETC, TRAP_OUT, TRAP_PUTS, TRAP_IN, TRAP_PUTSP, TRAP_HALT}"
  shows "step P s = Running (snd (fetch s)\<lparr>reg := (reg s)(R_PC := reg s R_PC + 1, R_R7 := reg s R_PC + 1)\<rparr>)"
  using assms by (simp add: step_execute execute_def op_trap_undefined fetch_reg)

text \<open>
  Claim C3 says that a \<^verbatim>\<open>TRAP\<close> whose low eight bits are none of the six codes ends
  the execution with an error. In the code the inner \<^verbatim>\<open>switch\<close> has no \<^verbatim>\<open>default\<close>:
  for the program \<^verbatim>\<open>TRAP x26; TRAP x25\<close> the first iteration only saves the program
  counter in R7 and the loop runs on, and the run ends in the normal halt of the second
  instruction.
\<close>

theorem undefined_trap_ignored:
  "step P0 s_trap = Running (s_trap\<lparr>reg := (reg s_trap)(R_PC := 0x3001, R_R7 := 0x3001)\<rparr>) \<and>
   run P0 s_trap =
     Some (Halted (s_trap\<lparr>reg := (reg s_trap)(R_PC := 0x3002, R_R7 := 0x3002),
                           con := put_str (''Shutdown'' @ [CHR 0x0A]) c0\<rparr>))"
proof -
  let ?s1 = "s_trap\<lparr>reg := (reg s_trap)(R_PC := 0x3001, R_R7 := 0x3001)\<rparr>"
  have s1: "step P0 s_trap = Running ?s1"
    by (simp add: step_def fetch_def mem_read_def execute_def op_trap_def s_trap_def
        initial_vm_def Let_def)
  have s2: "step P0 ?s1 = Halted (s_trap\<lparr>reg := (reg s_trap)(R_PC := 0x3002, R_R7 := 0x3002),
                           con := put_str (''Shutdown'' @ [CHR 0x0A]) c0\<rparr>)"
    by (simp add: step_def fetch_def mem_read_def execute_def op_trap_def s_trap_def
        initial_vm_def Let_def)
  have "run P0 s_trap = run P0 ?s1" by (subst run.simps) (simp add: s1)
  also have "\<dots> = Some (Halted (s_trap\<lparr>reg := (reg s_trap)(R_PC := 0x3002, R_R7 := 0x3002),
                           con := put_str (''Shutdown'' @ [CHR 0x0A]) c0\<rparr>))"
    by (subst run.simps) (simp add: s2)
  finally show ?thesis using s1 by simp
qed

section \<open>The image loader\<close>

lemma unat_of_nat_u16: "i < MEMORY_MAX \<Longrightarrow> unat (of_nat i :: u16) = i"
  by (simp add: unat_of_nat)

lemma neq_of_nat: "unat (a::u16) \<noteq> i \<Longrightarrow> i < MEMORY_MAX \<Longrightarrow> a \<noteq> of_nat i"
  using unat_of_nat_u16 by blast

lemma upd_outside:
  assumes "i < MEMORY_MAX" and "unat (a::u16) < i \<or> i + Suc n \<le> unat a"
  shows "(mem(of_nat i := v)) a = mem a"
proof -
  have "unat a \<noteq> i" using assms(2) by auto
  then have "a \<noteq> of_nat i" using assms(1) by (rule neq_of_nat)
  then show ?thesis by simp
qed

lemma fread_mem_safe:
  "i + n \<le> MEMORY_MAX \<Longrightarrow>
   \<exists>k mem'. fread_mem P i n bs mem = Some (k, mem') \<and> k \<le> n \<and> 2 * k \<le> length bs \<and>
     (\<forall>a. unat a < i \<or> i + n \<le> unat a \<longrightarrow> mem' a = mem a)"
proof (induction P i n bs mem rule: fread_mem.induct)
  case (1 P i bs mem)
  show ?case by simp
next
  case (2 P i n mem)
  show ?case by simp
next
  case (3 P i n b mem)
  then have i: "i < MEMORY_MAX" by simp
  have "\<forall>a. unat a < i \<or> i + Suc n \<le> unat a \<longrightarrow>
          (mem(of_nat i := partial_item P (mem (of_nat i)) b)) a = mem a"
  proof (intro allI impI)
    fix a :: u16 assume "unat a < i \<or> i + Suc n \<le> unat a"
    with i show "(mem(of_nat i := partial_item P (mem (of_nat i)) b)) a = mem a"
      by (rule upd_outside)
  qed
  then show ?case using i by simp
next
  case (4 P i n b0 b1 bs mem)
  from "4.prems" have i: "i < MEMORY_MAX" and "Suc i + n \<le> MEMORY_MAX" by simp_all
  with "4.IH" obtain k mem' where
    r: "fread_mem P (Suc i) n bs (mem(of_nat i := le16 b0 b1)) = Some (k, mem')"
    and k: "k \<le> n" "2 * k \<le> length bs"
    and u: "\<forall>a. unat a < Suc i \<or> Suc i + n \<le> unat a \<longrightarrow> mem' a = (mem(of_nat i := le16 b0 b1)) a"
    by blast
  have "\<forall>a. unat a < i \<or> i + Suc n \<le> unat a \<longrightarrow> mem' a = mem a"
  proof (intro allI impI)
    fix a :: u16 assume a: "unat a < i \<or> i + Suc n \<le> unat a"
    then have "mem' a = (mem(of_nat i := le16 b0 b1)) a" using u by auto
    also have "\<dots> = mem a" using i a by (rule upd_outside)
    finally show "mem' a = mem a" .
  qed
  then show ?case using i r k by simp
qed

lemma swap_loop_safe:
  "i + k \<le> MEMORY_MAX \<Longrightarrow>
   \<exists>mem'. swap_loop i k mem = Some mem' \<and>
     (\<forall>a. unat a < i \<or> i + k \<le> unat a \<longrightarrow> mem' a = mem a)"
proof (induction k arbitrary: i mem)
  case 0
  show ?case by simp
next
  case (Suc k)
  from Suc.prems have i: "i < MEMORY_MAX" and "Suc i + k \<le> MEMORY_MAX" by simp_all
  with Suc.IH [of "Suc i" "mem(of_nat i := swap16 (mem (of_nat i)))"] obtain mem' where
    r: "swap_loop (Suc i) k (mem(of_nat i := swap16 (mem (of_nat i)))) = Some mem'"
    and u: "\<forall>a. unat a < Suc i \<or> Suc i + k \<le> unat a \<longrightarrow>
              mem' a = (mem(of_nat i := swap16 (mem (of_nat i)))) a"
    by blast
  have "\<forall>a. unat a < i \<or> i + Suc k \<le> unat a \<longrightarrow> mem' a = mem a"
  proof (intro allI impI)
    fix a :: u16 assume a: "unat a < i \<or> i + Suc k \<le> unat a"
    then have "mem' a = (mem(of_nat i := swap16 (mem (of_nat i)))) a" using u by auto
    also have "\<dots> = mem a" using i a by (rule upd_outside)
    finally show "mem' a = mem a" .
  qed
  then show ?case using i r by simp
qed

lemma unat_lt_u16: "unat (a::u16) < MEMORY_MAX"
  using unsigned_less [of a] by simp

lemma max_read_value:
  "unat (of_nat (MEMORY_MAX - unat origin) :: u16) = (if origin = 0 then 0 else MEMORY_MAX - unat origin)"
  for origin :: u16
proof (cases "origin = 0")
  case True
  then show ?thesis by simp
next
  case False
  then have "0 < unat origin" by (simp add: unat_gt_0)
  then have "MEMORY_MAX - unat origin < MEMORY_MAX" by simp
  then show ?thesis using False by (simp only: unat_of_nat_u16 if_False)
qed

lemma max_read_fits:
  "unat origin + unat (of_nat (MEMORY_MAX - unat origin) :: u16) \<le> MEMORY_MAX" for origin :: u16
  unfolding max_read_value using unat_lt_u16 [of origin] by simp

lemma read_image_file_in_bounds:
  "\<exists>mem'. read_image_file P file mem = Some mem' \<and>
     (case file of
        b0 # b1 # body \<Rightarrow> (\<forall>a. a < swap16 (le16 b0 b1) \<longrightarrow> mem' a = mem a)
      | _ \<Rightarrow> mem' = mem)"
proof (cases "file")
  case Nil
  then show ?thesis by (simp add: read_image_file_def)
next
  case (Cons b0 rest)
  show ?thesis
  proof (cases rest)
    case Nil
    then show ?thesis using Cons by (simp add: read_image_file_def)
  next
    case (Cons b1 body)
    let ?o = "swap16 (le16 b0 b1)"
    let ?n = "unat (of_nat (MEMORY_MAX - unat ?o) :: u16)"
    have fits: "unat ?o + ?n \<le> MEMORY_MAX" by (rule max_read_fits)
    from fread_mem_safe [OF fits, of P body mem] obtain k mem1 where
      r: "fread_mem P (unat ?o) ?n body mem = Some (k, mem1)" and k: "k \<le> ?n"
      and u1: "\<forall>a. unat a < unat ?o \<or> unat ?o + ?n \<le> unat a \<longrightarrow> mem1 a = mem a"
      by blast
    have "unat ?o + k \<le> MEMORY_MAX" using fits k by linarith
    from swap_loop_safe [OF this, of mem1] obtain mem' where
      sw: "swap_loop (unat ?o) k mem1 = Some mem'"
      and u2: "\<forall>a. unat a < unat ?o \<or> unat ?o + k \<le> unat a \<longrightarrow> mem' a = mem1 a"
      by blast
    have "\<forall>a. a < ?o \<longrightarrow> mem' a = mem a"
      using u1 u2 by (simp add: word_less_nat_alt)
    moreover have "read_image_file P file mem = Some mem'"
      unfolding read_image_file_def Let_def \<open>file = b0 # rest\<close> Cons using r sw by simp
    ultimately show ?thesis using \<open>file = b0 # rest\<close> Cons by simp
  qed
qed

lemma fread_mem_end: "fread_mem P i n [] mem = Some (0, mem)"
  by (cases n) simp_all

lemma fread_mem_item:
  "0 < n \<Longrightarrow> i < MEMORY_MAX \<Longrightarrow>
   fread_mem P i n (b0 # b1 # bs) mem =
     (case fread_mem P (Suc i) (n - 1) bs (mem(of_nat i := le16 b0 b1)) of
        None \<Rightarrow> None
      | Some (k, mem') \<Rightarrow> Some (Suc k, mem'))"
  by (cases n) simp_all

text \<open>
  Claim C10. For an image whose origin word is 0x0000, \<^verbatim>\<open>max_read\<close> is 65536 cut to
  16 bits, which is 0, and \<^verbatim>\<open>read_image_file\<close> leaves the memory as it was, whatever
  the body of the image.
\<close>

theorem origin_zero_loads_nothing:
  "(of_nat (MEMORY_MAX - unat (swap16 (le16 0x00 0x00))) :: u16) = 0 \<and>
   read_image_file P (0x00 # 0x00 # body) mem = Some mem"
  by (simp add: read_image_file_def le16_def swap16_def)

text \<open>
  Claim C5 says that loading stops at the end of the stream or at the top of the
  address space. The loader never stores outside \<^verbatim>\<open>memory\<close> nor below the origin
  (\<open>read_image_file_in_bounds\<close>), but for the origin 0x0000 it stops before the first
  word: the image with origin 0x0000 and body 0x1234 leaves address 0x0000 as it was,
  while the same body at origin 0x0001 is stored.
\<close>

theorem origin_zero_drops_fitting_word:
  "map_option (\<lambda>m. m 0x0000) (read_image_file P0 [0x00, 0x00, 0x12, 0x34] (\<lambda>_. 0)) = Some 0x0000 \<and>
   map_option (\<lambda>m. m 0x0001) (read_image_file P0 [0x00, 0x01, 0x12, 0x34] (\<lambda>_. 0)) = Some 0x1234"
  by (simp add: read_image_file_def le16_def swap16_def fread_mem_end fread_mem_item)

section \<open>Load failures\<close>

lemma read_image_missing: "fs path = None \<Longrightarrow> read_image P fs path mem = Some (0, mem)"
  by (simp add: read_image_def)

lemma read_image_present:
  "fs path = Some file \<Longrightarrow> \<exists>mem'. read_image P fs path mem = Some (1, mem')"
  using read_image_file_in_bounds [of P "file" mem] by (auto simp: read_image_def)

lemma load_images_missing:
  "path \<in> set paths \<Longrightarrow> fs path = None \<Longrightarrow>
   \<exists>q\<in>set paths. fs q = None \<and> load_images P fs paths mem = Some (Inl q)"
proof (induction paths arbitrary: mem)
  case Nil
  then show ?case by simp
next
  case (Cons p ps)
  show ?case
  proof (cases "fs p")
    case None
    then show ?thesis by (simp add: read_image_missing)
  next
    case (Some bytes)
    then obtain mem' where r: "read_image P fs p mem = Some (1, mem')"
      using read_image_present by blast
    from Some Cons.prems have "path \<in> set ps" by auto
    then obtain q where "q \<in> set ps" and "fs q = None"
      and "load_images P fs ps mem' = Some (Inl q)"
      using Cons.IH [of mem'] Cons.prems(2) by blast
    then show ?thesis using r by auto
  qed
qed

text \<open>
  Claim C6, for the sources that cannot be opened. For a path on which \<^verbatim>\<open>fopen\<close>
  fails (a missing file, or one that may not be opened), \<^verbatim>\<open>read_image\<close> returns 0 and
  the memory is the one it was given. When such a path is among the arguments of
  \<^verbatim>\<open>main\<close>, the program prints the failure of the first path that cannot be opened
  and ends with \<^verbatim>\<open>exit(1)\<close>: the execution loop is never entered.
\<close>

theorem unopenable_image_fails:
  "fs path = None \<Longrightarrow>
   read_image P fs path mem = Some (0, mem) \<and>
   (path \<in> set paths \<longrightarrow>
      (\<exists>q\<in>set paths. fs q = None \<and>
         main P fs (prog # paths) c =
           Some (Exited 1 (put_str (''failed to load image: '' @ q @ [CHR 0x0A]) c))))"
proof (intro conjI impI)
  assume "fs path = None"
  then show "read_image P fs path mem = Some (0, mem)" by (rule read_image_missing)
next
  assume "fs path = None" and "path \<in> set paths"
  then obtain q where q: "q \<in> set paths" "fs q = None"
    and l: "load_images P fs paths (\<lambda>_. 0) = Some (Inl q)"
    using load_images_missing [of path paths fs P "\<lambda>_. 0"] by blast
  have "paths \<noteq> []" using q(1) by auto
  then have "\<not> length (prog # paths) < 2" by (cases paths) simp_all
  then have "main P fs (prog # paths) c =
      Some (Exited 1 (put_str (''failed to load image: '' @ q @ [CHR 0x0A]) c))"
    using l by (simp add: main_def)
  then show "\<exists>q\<in>set paths. fs q = None \<and>
         main P fs (prog # paths) c =
           Some (Exited 1 (put_str (''failed to load image: '' @ q @ [CHR 0x0A]) c))"
    using q by blast
qed

theorem unopenable_image_fails_witness:
  "fs0 ''missing.obj'' = None \<and> ''missing.obj'' \<in> set [''prog.obj'', ''missing.obj''] \<and>
   read_image P0 fs0 ''missing.obj'' (\<lambda>_. 0) = Some (0, \<lambda>_. 0) \<and>
   main P0 fs0 [''lc3'', ''prog.obj'', ''missing.obj''] c0 =
     Some (Exited 1 (put_str (''failed to load image: missing.obj'' @ [CHR 0x0A]) c0))"
proof -
  have m: "fs0 ''missing.obj'' = None" by (simp add: fs0_def)
  have i: "''missing.obj'' \<in> set [''prog.obj'', ''missing.obj'']" by simp
  note inst = unopenable_image_fails [where fs = fs0 and path = "''missing.obj''" and P = P0
      and mem = "\<lambda>_. 0" and paths = "[''prog.obj'', ''missing.obj'']" and prog = "''lc3''"
      and c = c0, OF m]
  from inst have "read_image P0 fs0 ''missing.obj'' (\<lambda>_. 0) = Some (0, \<lambda>_. 0)" by blast
  moreover from inst i obtain q where "q \<in> set [''prog.obj'', ''missing.obj'']" and "fs0 q = None"
    and r: "main P0 fs0 [''lc3'', ''prog.obj'', ''missing.obj''] c0 =
           Some (Exited 1 (put_str (''failed to load image: '' @ q @ [CHR 0x0A]) c0))"
    by blast
  then have "q = ''missing.obj''" by (auto simp: fs0_def)
  ultimately show ?thesis using m i r by simp
qed

text \<open>
  The loop never calls \<^verbatim>\<open>exit\<close>: a run that was started does not end as \<open>Exited\<close>.
\<close>

lemma op_trap_not_exited: "op_trap P instr s \<noteq> Exited n c"
  by (simp add: op_trap_def Let_def split: prod.splits option.splits)

lemma execute_not_exited: "execute P instr s \<noteq> Exited n c"
  by (simp add: execute_def Let_def op_trap_not_exited)

lemma step_not_exited: "step P s \<noteq> Exited n c"
  by (simp add: step_execute execute_not_exited)

lemma run_not_exited:
  assumes "run P s = Some out"
  shows "out \<noteq> Exited n c"
proof -
  have "(\<lambda>(P, s) out. out \<noteq> Exited n c) (P, s) out"
  proof (rule run.raw_induct [where Pa = "\<lambda>(P, s) out. out \<noteq> Exited n c", OF _ assms])
    fix f :: "platform \<Rightarrow> vm \<Rightarrow> outcome option" and P s out
    assume IH: "\<And>P s y. f P s = Some y \<Longrightarrow> (\<lambda>(P, s) out. out \<noteq> Exited n c) (P, s) y"
      and eq: "(case step P s of
          Running s' \<Rightarrow> f P s'
        | Halted s' \<Rightarrow> Some (Halted s')
        | Aborted s' \<Rightarrow> Some (Aborted s')
        | Exited n c \<Rightarrow> Some (Exited n c)
        | Out_of_bounds \<Rightarrow> Some Out_of_bounds) = Some out"
    have "out \<noteq> Exited n c"
    proof (cases "step P s")
      case (Running s')
      then have "f P s' = Some out" using eq by simp
      then show ?thesis using IH by fastforce
    next
      case (Halted s')
      then show ?thesis using eq by auto
    next
      case (Aborted s')
      then show ?thesis using eq by auto
    next
      case (Exited m d)
      then show ?thesis using step_not_exited by blast
    next
      case Out_of_bounds
      then show ?thesis using eq by auto
    qed
    then show "(\<lambda>(P, s) out. out \<noteq> Exited n c) (P, s) out" by simp
  qed
  then show ?thesis by simp
qed

text \<open>
  As the specification states it, the claim covers every unreadable source. It fails for
  a source that opens and cannot be read: for the directory \<^verbatim>\<open>adir\<close>, \<^verbatim>\<open>read_image\<close>
  returns 1, \<^verbatim>\<open>main\<close> enters the loop on the empty memory and executes the word at
  0x3000, and the program does not end by \<^verbatim>\<open>exit\<close>: no load failure is reported.
\<close>

theorem unreadable_directory_is_loaded:
  "fs_dir ''adir'' = Some [] \<and>
   read_image P0 fs_dir ''adir'' (\<lambda>_. 0) = Some (1, \<lambda>_. 0) \<and>
   main P0 fs_dir [''lc3'', ''adir''] c0 = run P0 (initial_vm (\<lambda>_. 0) c0) \<and>
   step P0 (initial_vm (\<lambda>_. 0) c0) =
     Running ((initial_vm (\<lambda>_. 0) c0)\<lparr>reg := (reg (initial_vm (\<lambda>_. 0) c0))(R_PC := 0x3001)\<rparr>) \<and>
   (\<forall>n c. main P0 fs_dir [''lc3'', ''adir''] c0 \<noteq> Some (Exited n c))"
proof -
  have r: "read_image P0 fs_dir ''adir'' (\<lambda>_. 0) = Some (1, \<lambda>_. 0)"
    by (simp add: read_image_def read_image_file_def fs_dir_def)
  have m: "main P0 fs_dir [''lc3'', ''adir''] c0 = run P0 (initial_vm (\<lambda>_. 0) c0)"
    by (simp add: main_def r)
  have s: "step P0 (initial_vm (\<lambda>_. 0) c0) =
     Running ((initial_vm (\<lambda>_. 0) c0)\<lparr>reg := (reg (initial_vm (\<lambda>_. 0) c0))(R_PC := 0x3001)\<rparr>)"
    by (simp add: step_def fetch_def mem_read_def execute_def op_br_def initial_vm_def Let_def)
  have "\<forall>n c. main P0 fs_dir [''lc3'', ''adir''] c0 \<noteq> Some (Exited n c)"
    unfolding m using run_not_exited by blast
  then show ?thesis using r m s by (simp add: fs_dir_def)
qed

end
